theory Spec2Isabelle
  imports Main "HOL-Library.Multiset"
begin

section \<open>Values and records of the export script\<close>

text \<open>
  The script \<^verbatim>\<open>scripts/export-knowledge-data.js\<close> reads an array of flat records
  (JSON objects whose values are scalars), renders it as delimited text
  (\<^verbatim>\<open>jsonToCsv\<close>) and aggregates it (\<^verbatim>\<open>generateSummary\<close>).

  A value is what a property read of a record can give: a JSON scalar, \<^verbatim>\<open>undefined\<close>,
  or a property the record inherits from \<^verbatim>\<open>Object.prototype\<close>. A number is
  represented by its canonical text (the result of \<^verbatim>\<open>String(n)\<close>): the script only
  ever stringifies a number, tests its truthiness or hands it to \<^verbatim>\<open>new Date\<close>.
  Strings are sequences of 8-bit units; the three characters the script looks for
  (comma, double quote, line feed) are single units in UTF-8 as in UTF-16.
\<close>

abbreviation COMMA :: char where "COMMA \<equiv> CHR 0x2C"
abbreviation DQUOTE :: char where "DQUOTE \<equiv> CHR 0x22"
abbreviation LF :: char where "LF \<equiv> CHR 0x0A"

datatype jsval =
    JUndefined
  | JNull
  | JBool bool
  | JNum string
  | JStr string
  | JNative string
  | JObjectProto

text \<open>
  A record is a plain object as \<^verbatim>\<open>JSON.parse\<close> builds it: its own properties, in the
  order \<^verbatim>\<open>Object.keys\<close> enumerates them. The keys of an object are distinct; a
  lookup takes the first binding.
\<close>

type_synonym article = "(string \<times> jsval) list"

definition Object_keys :: "article \<Rightarrow> string list" where
  "Object_keys a = map fst a"

text \<open>
  The properties every plain object inherits from \<^verbatim>\<open>Object.prototype\<close>: eleven
  built-in functions (\<^verbatim>\<open>constructor\<close> is the function named \<^verbatim>\<open>Object\<close>) and the
  accessor \<^verbatim>\<open>__proto__\<close>, whose getter returns \<^verbatim>\<open>Object.prototype\<close> itself.
\<close>

definition object_prototype_methods :: "string list" where
  "object_prototype_methods =
     [''__defineGetter__'', ''__defineSetter__'', ''hasOwnProperty'',
      ''__lookupGetter__'', ''__lookupSetter__'', ''isPrototypeOf'',
      ''propertyIsEnumerable'', ''toString'', ''valueOf'', ''toLocaleString'']"

definition object_prototype_names :: "string list" where
  "object_prototype_names = ''constructor'' # ''__proto__'' # object_prototype_methods"

definition object_prototype_get :: "string \<Rightarrow> jsval" where
  "object_prototype_get k =
     (if k = ''constructor'' then JNative ''Object''
      else if k = ''__proto__'' then JObjectProto
      else if k \<in> set object_prototype_methods then JNative k
      else JUndefined)"

text \<open>\<^verbatim>\<open>article[header]\<close>: the own property, else the inherited one, else \<^verbatim>\<open>undefined\<close>.\<close>

definition js_get :: "article \<Rightarrow> string \<Rightarrow> jsval" where
  "js_get a k = (case map_of a k of Some v \<Rightarrow> v | None \<Rightarrow> object_prototype_get k)"

text \<open>
  \<^verbatim>\<open>String(value)\<close>, which is also the property key a value is used as. A built-in
  function prints as V8 prints it.
\<close>

fun ToString :: "jsval \<Rightarrow> string" where
  "ToString JUndefined = ''undefined''"
| "ToString JNull = ''null''"
| "ToString (JBool b) = (if b then ''true'' else ''false'')"
| "ToString (JNum t) = t"
| "ToString (JStr s) = s"
| "ToString (JNative f) = ''function '' @ f @ ''() { [native code] }''"
| "ToString JObjectProto = ''[object Object]''"

text \<open>Truthiness (\<^verbatim>\<open>ToBoolean\<close>); a number is falsy when it is zero or NaN.\<close>

fun truthy :: "jsval \<Rightarrow> bool" where
  "truthy JUndefined = False"
| "truthy JNull = False"
| "truthy (JBool b) = b"
| "truthy (JNum t) = (t \<noteq> ''0'' \<and> t \<noteq> ''NaN'')"
| "truthy (JStr s) = (s \<noteq> [])"
| "truthy (JNative f) = True"
| "truthy JObjectProto = True"

section \<open>jsonToCsv\<close>

text \<open>\<^verbatim>\<open>Array.prototype.join\<close> on an array of strings.\<close>

fun join :: "string list \<Rightarrow> string \<Rightarrow> string" where
  "join [] sep = []"
| "join [x] sep = x"
| "join (x # y # ys) sep = x @ sep @ join (y # ys) sep"

text \<open>\<^verbatim>\<open>s.replace(/"/g, '""')\<close>\<close>

fun replace_quotes :: "string \<Rightarrow> string" where
  "replace_quotes [] = []"
| "replace_quotes (c # cs) =
     (if c = DQUOTE then DQUOTE # DQUOTE # replace_quotes cs else c # replace_quotes cs)"

text \<open>The inner callback of \<^verbatim>\<open>jsonToCsv\<close> (lines 42-55): one cell.\<close>

definition csv_cell :: "jsval \<Rightarrow> string" where
  "csv_cell v =
     (if v = JNull \<or> v = JUndefined then []
      else
        let stringValue = replace_quotes (ToString v) in
        if COMMA \<in> set stringValue \<or> DQUOTE \<in> set stringValue \<or> LF \<in> set stringValue
        then DQUOTE # stringValue @ [DQUOTE]
        else stringValue)"

text \<open>The outer callback (lines 41-56): one data row.\<close>

definition csv_row :: "string list \<Rightarrow> article \<Rightarrow> string" where
  "csv_row headers a = join (map (\<lambda>header. csv_cell (js_get a header)) headers) [COMMA]"

text \<open>
  \<^verbatim>\<open>jsonToCsv(articles)\<close>. An array is truthy, so the guard of line 30 is the test
  for the empty array.
\<close>

definition jsonToCsv :: "article list \<Rightarrow> string" where
  "jsonToCsv articles =
     (case articles of
        [] \<Rightarrow> []
      | first # _ \<Rightarrow>
          let headers = Object_keys first;
              csvHeader = join headers [COMMA];
              csvRows = map (csv_row headers) articles
          in join (csvHeader # csvRows) [LF])"

section \<open>A reader of delimited text\<close>

text \<open>
  The reference reader the round-trip property is stated against, after the grammar of
  RFC 4180: a record is a comma-separated list of fields; a field is either escaped
  (enclosed in double quotes, inside which a double quote is written twice and commas
  and line breaks are data) or not escaped (no double quote in it). Records are
  separated by the line feed the script writes between rows. The reader rejects
  (\<open>None\<close>) a double quote inside a field that is not escaped, text after a closing
  quote, and an escaped field that is never closed.

  \<open>rfc4180 st fld row rows input\<close>: \<open>fld\<close> is the current field, reversed; \<open>row\<close> the
  fields of the current record, reversed; \<open>rows\<close> the finished records, reversed.
\<close>

datatype rstate = FieldStart | InPlain | InQuoted | AfterQuote

fun rfc4180 ::
  "rstate \<Rightarrow> string \<Rightarrow> string list \<Rightarrow> string list list \<Rightarrow> string \<Rightarrow> string list list option"
where
  "rfc4180 InQuoted fld row rows [] = None"
| "rfc4180 st fld row rows [] = Some (rev (rev (rev fld # row) # rows))"
| "rfc4180 FieldStart fld row rows (c # cs) =
     (if c = DQUOTE then rfc4180 InQuoted [] row rows cs
      else if c = COMMA then rfc4180 FieldStart [] ([] # row) rows cs
      else if c = LF then rfc4180 FieldStart [] [] (rev ([] # row) # rows) cs
      else rfc4180 InPlain [c] row rows cs)"
| "rfc4180 InPlain fld row rows (c # cs) =
     (if c = DQUOTE then None
      else if c = COMMA then rfc4180 FieldStart [] (rev fld # row) rows cs
      else if c = LF then rfc4180 FieldStart [] [] (rev (rev fld # row) # rows) cs
      else rfc4180 InPlain (c # fld) row rows cs)"
| "rfc4180 InQuoted fld row rows (c # cs) =
     (if c = DQUOTE then rfc4180 AfterQuote fld row rows cs
      else rfc4180 InQuoted (c # fld) row rows cs)"
| "rfc4180 AfterQuote fld row rows (c # cs) =
     (if c = DQUOTE then rfc4180 InQuoted (DQUOTE # fld) row rows cs
      else if c = COMMA then rfc4180 FieldStart [] (rev fld # row) rows cs
      else if c = LF then rfc4180 FieldStart [] [] (rev (rev fld # row) # rows) cs
      else None)"

definition rfc4180_parse :: "string \<Rightarrow> string list list option" where
  "rfc4180_parse input = rfc4180 FieldStart [] [] [] input"

text \<open>The text a cell stands for: empty for \<^verbatim>\<open>null\<close> and \<^verbatim>\<open>undefined\<close>.\<close>

definition cell_text :: "jsval \<Rightarrow> string" where
  "cell_text v = (if v = JNull \<or> v = JUndefined then [] else ToString v)"

section \<open>generateSummary\<close>

text \<open>
  The tallies \<^verbatim>\<open>articleTypes\<close>, \<^verbatim>\<open>languages\<close> and \<^verbatim>\<open>publishStatuses\<close> are plain
  objects that start as \<^verbatim>\<open>{}\<close> and are used as dictionaries. A tally maps the own
  property names to the values stored: numbers, and strings where \<^verbatim>\<open>+ 1\<close> was a
  concatenation.
\<close>

datatype cval = CNum nat | CStr string

type_synonym counters = "string \<Rightarrow> cval option"

text \<open>
  The value of \<^verbatim>\<open>(counters[k] || 0) + 1\<close>. The read finds the own property, else what
  \<^verbatim>\<open>Object.prototype\<close> has under \<open>k\<close>; a falsy value is replaced by \<open>0\<close>; adding \<open>1\<close> to
  a number counts, adding \<open>1\<close> to a string, a function or an object appends the
  character \<^verbatim>\<open>1\<close> to its text.
\<close>

definition incremented :: "counters \<Rightarrow> string \<Rightarrow> cval" where
  "incremented m k =
     (case m k of
        Some (CNum n) \<Rightarrow> CNum ((if n = 0 then 0 else n) + 1)
      | Some (CStr s) \<Rightarrow> (if s = [] then CNum (0 + 1) else CStr (s @ ''1''))
      | None \<Rightarrow>
          (if truthy (object_prototype_get k)
           then CStr (ToString (object_prototype_get k) @ ''1'')
           else CNum (0 + 1)))"

text \<open>
  The assignment \<^verbatim>\<open>counters[k] = (counters[k] || 0) + 1\<close>. Under the key
  \<^verbatim>\<open>__proto__\<close> the assignment calls the inherited setter, which ignores a value that
  is not an object: no own property is created.
\<close>

definition count_under :: "string \<Rightarrow> counters \<Rightarrow> counters" where
  "count_under k m = (if k = ''__proto__'' then m else m(k \<mapsto> incremented m k))"

record visibility_stats =
  visibleInPkb :: nat
  visibleInCsp :: nat
  visibleInPrm :: nat

record date_range =
  earliest :: jsval
  latest :: jsval

record summary =
  exportDate :: string
  totalArticles :: nat
  articleTypes :: counters
  languages :: counters
  publishStatuses :: counters
  visibilityStats :: visibility_stats
  dateRange :: date_range

text \<open>
  What the host gives and the script does not define: \<^verbatim>\<open>Date.parse\<close> on a string,
  and the time value of a number (by its canonical text). \<open>None\<close> is NaN, the time
  value of an invalid date.
\<close>

record host =
  dateParse :: "string \<Rightarrow> int option"
  numberTime :: "string \<Rightarrow> int option"

text \<open>The time value of \<^verbatim>\<open>new Date(value)\<close>.\<close>

fun new_Date :: "host \<Rightarrow> jsval \<Rightarrow> int option" where
  "new_Date h JUndefined = None"
| "new_Date h JNull = Some 0"
| "new_Date h (JBool b) = Some (if b then 1 else 0)"
| "new_Date h (JNum t) = numberTime h t"
| "new_Date h (JStr s) = dateParse h s"
| "new_Date h (JNative f) = dateParse h (ToString (JNative f))"
| "new_Date h JObjectProto = dateParse h (ToString JObjectProto)"

text \<open>\<^verbatim>\<open>d1 < d2\<close> on two dates: the comparison of their time values, false when one is NaN.\<close>

fun date_less :: "int option \<Rightarrow> int option \<Rightarrow> bool" where
  "date_less (Some x) (Some y) = (x < y)"
| "date_less _ _ = False"

text \<open>Lines 98-106: the date range after one more record.\<close>

definition track_date :: "host \<Rightarrow> article \<Rightarrow> date_range \<Rightarrow> date_range" where
  "track_date h a dr =
     (if truthy (js_get a ''createdDate'') then
        let createdDate = new_Date h (js_get a ''createdDate'');
            dr1 = (if truthy (earliest dr)
                   then (if date_less createdDate (new_Date h (earliest dr))
                         then dr\<lparr>earliest := js_get a ''createdDate''\<rparr> else dr)
                   else dr\<lparr>earliest := js_get a ''createdDate''\<rparr>);
            dr2 = (if truthy (latest dr1)
                   then (if date_less (new_Date h (latest dr1)) createdDate
                         then dr1\<lparr>latest := js_get a ''createdDate''\<rparr> else dr1)
                   else dr1\<lparr>latest := js_get a ''createdDate''\<rparr>)
        in dr2
      else dr)"

text \<open>Lines 93-95: the visibility counters after one more record.\<close>

definition count_visibility :: "article \<Rightarrow> visibility_stats \<Rightarrow> visibility_stats" where
  "count_visibility a vs =
     (let vs1 = (if truthy (js_get a ''isVisibleInPkb'')
                 then vs\<lparr>visibleInPkb := visibleInPkb vs + 1\<rparr> else vs);
          vs2 = (if truthy (js_get a ''isVisibleInCsp'')
                 then vs1\<lparr>visibleInCsp := visibleInCsp vs1 + 1\<rparr> else vs1);
          vs3 = (if truthy (js_get a ''isVisibleInPrm'')
                 then vs2\<lparr>visibleInPrm := visibleInPrm vs2 + 1\<rparr> else vs2)
      in vs3)"

text \<open>The callback of \<^verbatim>\<open>articles.forEach\<close> (lines 82-107).\<close>

definition tally_article :: "host \<Rightarrow> article \<Rightarrow> summary \<Rightarrow> summary" where
  "tally_article h a s =
     s\<lparr>articleTypes := count_under (ToString (js_get a ''articleType'')) (articleTypes s),
       languages := count_under (ToString (js_get a ''language'')) (languages s),
       publishStatuses := count_under (ToString (js_get a ''publishStatus'')) (publishStatuses s),
       visibilityStats := count_visibility a (visibilityStats s),
       dateRange := track_date h a (dateRange s)\<rparr>"

text \<open>
  \<^verbatim>\<open>generateSummary(articles)\<close>; \<open>now\<close> is the text of the clock,
  \<^verbatim>\<open>new Date().toISOString()\<close>. \<open>fold\<close> visits the records from the first to the last,
  as \<^verbatim>\<open>forEach\<close> does.
\<close>

definition initial_summary :: "string \<Rightarrow> article list \<Rightarrow> summary" where
  "initial_summary now articles =
     \<lparr>exportDate = now,
      totalArticles = length articles,
      articleTypes = Map.empty,
      languages = Map.empty,
      publishStatuses = Map.empty,
      visibilityStats = \<lparr>visibleInPkb = 0, visibleInCsp = 0, visibleInPrm = 0\<rparr>,
      dateRange = \<lparr>earliest = JNull, latest = JNull\<rparr>\<rparr>"

definition generateSummary :: "host \<Rightarrow> string \<Rightarrow> article list \<Rightarrow> summary" where
  "generateSummary h now articles = fold (tally_article h) articles (initial_summary now articles)"

text \<open>
  A host for the concrete evaluations below: \<^verbatim>\<open>Date.parse\<close> on the two date-only
  strings they use (midnight UTC, in milliseconds since the epoch); any other string
  does not parse, as is the case for \<^verbatim>\<open>not a date\<close>. The evaluations use no number as
  a date.
\<close>

definition example_host :: host where
  "example_host =
     \<lparr>dateParse = map_of [(''2023-01-01'', 1672531200000), (''2023-06-01'', 1685577600000)],
      numberTime = (\<lambda>t. None)\<rparr>"

text \<open>How often a key occurs, and the value a tally holds for so many occurrences.\<close>

definition occurrences :: "string \<Rightarrow> string list \<Rightarrow> nat" where
  "occurrences k ks = length (filter (\<lambda>x. x = k) ks)"

definition tally_value :: "cval option \<Rightarrow> nat" where
  "tally_value v = (case v of Some (CNum n) \<Rightarrow> n | _ \<Rightarrow> 0)"

definition tally_sum :: "counters \<Rightarrow> nat" where
  "tally_sum m = (\<Sum>k\<in>dom m. tally_value (m k))"

section \<open>exportKnowledgeData\<close>

text \<open>
  What \<^verbatim>\<open>JSON.parse\<close> makes of the input file. The elements of an array are records;
  the properties of a document that is an object are scalars.
\<close>

datatype document =
    DocArray "article list"
  | DocNull
  | DocBool bool
  | DocNum string
  | DocStr string
  | DocObject article

text \<open>
  The text of the input file, by what \<^verbatim>\<open>JSON.parse\<close> does on it: it throws a
  \<^verbatim>\<open>SyntaxError\<close>, or returns a document.
\<close>

datatype json_text = Malformed | Json document

datatype js_error = SyntaxError | TypeError | SystemError

text \<open>
  A line of the log: operation, status and detail, without its timestamp. The detail of
  a failure is the message of the exception, which the host words.
\<close>

datatype detail = Text string | MessageOf js_error

type_synonym log_entry = "string \<times> string \<times> detail"

text \<open>
  The files of \<^verbatim>\<open>data/knowledge_base\<close>; \<open>None\<close> is a file that does not exist. The
  summary file is represented by the summary it serialises.
\<close>

record files =
  articles_json :: "json_text option"
  articles_csv :: "string option"
  summary_json :: "summary option"
  export_log :: "log_entry list"

text \<open>
  The run's environment: the host's dates, the clock, and whether the file system lets
  the run read the input and write each output.
\<close>

record runtime =
  dates :: host
  clock :: string
  read_ok :: bool
  csv_write_ok :: bool
  summary_write_ok :: bool
  log_write_ok :: bool

record outcome =
  exit_status :: nat
  final :: files

text \<open>\<^verbatim>\<open>String(n)\<close> for a length.\<close>

fun decimal :: "nat \<Rightarrow> string" where
  "decimal n =
     (if n < 10 then [char_of (48 + n)]
      else decimal (n div 10) @ [char_of (48 + n mod 10)])"

declare decimal.simps [simp del]

text \<open>
  \<^verbatim>\<open>logExport\<close> (lines 115-124): appends a line; a failure to append is caught and only
  reported on the console.
\<close>

definition logExport :: "runtime \<Rightarrow> string \<Rightarrow> string \<Rightarrow> detail \<Rightarrow> files \<Rightarrow> files" where
  "logExport rt operation status details fs =
     (if log_write_ok rt then fs\<lparr>export_log := export_log fs @ [(operation, status, details)]\<rparr>
      else fs)"

text \<open>
  The text of \<^verbatim>\<open>articles.length\<close> in the template of line 145. Reading a property of
  \<^verbatim>\<open>null\<close> throws; a boolean and a number have no such property. The length of a
  string is counted in the units of this model's strings; it only appears in the log.
\<close>

fun length_text :: "document \<Rightarrow> js_error + string" where
  "length_text (DocArray articles) = Inr (decimal (length articles))"
| "length_text DocNull = Inl TypeError"
| "length_text (DocBool b) = Inr (ToString JUndefined)"
| "length_text (DocNum t) = Inr (ToString JUndefined)"
| "length_text (DocStr s) = Inr (decimal (length s))"
| "length_text (DocObject r) = Inr (ToString (js_get r ''length''))"

text \<open>
  \<^verbatim>\<open>jsonToCsv\<close> on whatever was parsed. A falsy document, or one whose \<^verbatim>\<open>length\<close>
  is the number 0, leaves at line 31 with the empty string. Any other document that is
  not an array throws a \<^verbatim>\<open>TypeError\<close>: at \<^verbatim>\<open>Object.keys(articles[0])\<close> when
  \<^verbatim>\<open>articles[0]\<close> is \<^verbatim>\<open>undefined\<close> or \<^verbatim>\<open>null\<close>, and otherwise at
  \<^verbatim>\<open>articles.map\<close>, which is not a function (a property parsed from JSON never is).
\<close>

fun jsonToCsv_of :: "document \<Rightarrow> js_error + string" where
  "jsonToCsv_of (DocArray articles) = Inr (jsonToCsv articles)"
| "jsonToCsv_of DocNull = Inr []"
| "jsonToCsv_of (DocBool b) = (if b then Inl TypeError else Inr [])"
| "jsonToCsv_of (DocNum t) = (if truthy (JNum t) then Inl TypeError else Inr [])"
| "jsonToCsv_of (DocStr s) = (if truthy (JStr s) then Inl TypeError else Inr [])"
| "jsonToCsv_of (DocObject r) = (if js_get r ''length'' = JNum ''0'' then Inr [] else Inl TypeError)"

text \<open>
  \<^verbatim>\<open>generateSummary\<close> on whatever was parsed: \<^verbatim>\<open>articles.length\<close> throws on
  \<^verbatim>\<open>null\<close>, and \<^verbatim>\<open>articles.forEach\<close> is a function on an array only.
\<close>

fun generateSummary_of :: "host \<Rightarrow> string \<Rightarrow> document \<Rightarrow> js_error + summary" where
  "generateSummary_of h now (DocArray articles) = Inr (generateSummary h now articles)"
| "generateSummary_of h now d = Inl TypeError"

text \<open>
  The body of the \<^verbatim>\<open>try\<close> block after the existence test (lines 140-170): the files
  as the body leaves them, and the exception that ended it, if any.
\<close>

definition export_body :: "runtime \<Rightarrow> json_text \<Rightarrow> files \<Rightarrow> files \<times> js_error option" where
  "export_body rt content fs =
     (if \<not> read_ok rt then (fs, Some SystemError)
      else case content of
        Malformed \<Rightarrow> (fs, Some SyntaxError)
      | Json articles \<Rightarrow>
          (case length_text articles of
             Inl e \<Rightarrow> (fs, Some e)
           | Inr n \<Rightarrow>
               let fs1 = logExport rt ''READ_ARTICLES'' ''SUCCESS'' (Text (n @ '' articles loaded'')) fs in
               (case jsonToCsv_of articles of
                  Inl e \<Rightarrow> (fs1, Some e)
                | Inr csvData \<Rightarrow>
                    if \<not> csv_write_ok rt then (fs1, Some SystemError)
                    else
                      let fs2 = fs1\<lparr>articles_csv := Some csvData\<rparr>;
                          fs3 = logExport rt ''GENERATE_CSV'' ''SUCCESS''
                                  (Text (n @ '' articles converted'')) fs2
                      in
                      (case generateSummary_of (dates rt) (clock rt) articles of
                         Inl e \<Rightarrow> (fs3, Some e)
                       | Inr summary \<Rightarrow>
                           if \<not> summary_write_ok rt then (fs3, Some SystemError)
                           else
                             let fs4 = fs3\<lparr>summary_json := Some summary\<rparr>;
                                 fs5 = logExport rt ''GENERATE_SUMMARY'' ''SUCCESS''
                                         (Text (decimal (totalArticles summary) @ '' articles analyzed'')) fs4;
                                 fs6 = logExport rt ''EXPORT_COMPLETE'' ''SUCCESS''
                                         (Text ''All formats generated'') fs5
                             in (fs6, None)))))"

text \<open>
  \<^verbatim>\<open>exportKnowledgeData\<close> (lines 129-177). Without the input file the process exits
  with status 1 at line 137; an exception of the body is logged and the process exits
  with status 1 at line 175; otherwise the script ends and the status is 0.
\<close>

definition exportKnowledgeData :: "runtime \<Rightarrow> files \<Rightarrow> outcome" where
  "exportKnowledgeData rt fs =
     (case articles_json fs of
        None \<Rightarrow> \<lparr>exit_status = 1, final = fs\<rparr>
      | Some content \<Rightarrow>
          (case export_body rt content fs of
             (fs', None) \<Rightarrow> \<lparr>exit_status = 0, final = fs'\<rparr>
           | (fs', Some e) \<Rightarrow>
               \<lparr>exit_status = 1,
                final = logExport rt ''EXPORT_ERROR'' ''FAILED'' (MessageOf e) fs'\<rparr>))"

text \<open>Whether the input file holds a JSON array.\<close>

fun holds_array :: "json_text \<Rightarrow> bool" where
  "holds_array (Json (DocArray articles)) = True"
| "holds_array t = False"

section \<open>Vocabulary of the properties\<close>

text \<open>The keys under which the records are tallied for one categorical field.\<close>

definition category_keys :: "string \<Rightarrow> article list \<Rightarrow> string list" where
  "category_keys field articles = map (\<lambda>a. ToString (js_get a field)) articles"

definition bucket_count :: "string \<Rightarrow> string \<Rightarrow> article list \<Rightarrow> nat" where
  "bucket_count field k articles = occurrences k (category_keys field articles)"

text \<open>
  The date values the loop looks at (the truthy ones), whether each gives a valid date,
  and their time values.
\<close>

definition date_values :: "article list \<Rightarrow> jsval list" where
  "date_values articles = filter truthy (map (\<lambda>a. js_get a ''createdDate'') articles)"

definition all_dates_parse :: "host \<Rightarrow> article list \<Rightarrow> bool" where
  "all_dates_parse h articles = list_all (\<lambda>v. new_Date h v \<noteq> None) (date_values articles)"

definition date_times :: "host \<Rightarrow> article list \<Rightarrow> int list" where
  "date_times h articles = map (\<lambda>v. the (new_Date h v)) (date_values articles)"

text \<open>The two records of the specification's example, and a run's surroundings.\<close>

definition example_articles :: "article list" where
  "example_articles =
     [[(''articleType'', JStr ''FAQ''), (''language'', JStr ''en''),
       (''isVisibleInPkb'', JBool True), (''createdDate'', JStr ''2023-01-01'')],
      [(''articleType'', JStr ''FAQ''), (''language'', JStr ''fr''),
       (''isVisibleInPkb'', JBool False), (''createdDate'', JStr ''2023-06-01'')]]"

definition example_runtime :: runtime where
  "example_runtime =
     \<lparr>dates = example_host, clock = ''2026-01-01T00:00:00.000Z'', read_ok = True,
      csv_write_ok = True, summary_write_ok = True, log_write_ok = True\<rparr>"

definition empty_files :: files where
  "empty_files = \<lparr>articles_json = None, articles_csv = None, summary_json = None, export_log = []\<rparr>"

text \<open>
  A field name that needs no quoting, and a sequence with a value that does: the title
  of its second record has a comma and a double quote.
\<close>

definition plain_name :: "string \<Rightarrow> bool" where
  "plain_name n = (COMMA \<notin> set n \<and> DQUOTE \<notin> set n \<and> LF \<notin> set n)"

definition quoted_example :: "article list" where
  "quoted_example =
     [[(''id'', JNum ''7''), (''title'', JStr ''plain'')],
      [(''title'', JStr (''a'' @ [COMMA, DQUOTE] @ ''b'')), (''id'', JNum ''8'')]]"

section \<open>Rendering and reading back\<close>

subsection \<open>The reader on what \<open>csv_cell\<close> writes\<close>

lemma plain_run:
  "COMMA \<notin> set t \<Longrightarrow> DQUOTE \<notin> set t \<Longrightarrow> LF \<notin> set t \<Longrightarrow>
   rfc4180 InPlain fld row rows (t @ rest) = rfc4180 InPlain (rev t @ fld) row rows rest"
  by (induction t arbitrary: fld) auto

lemma plain_start:
  assumes "COMMA \<notin> set t" "DQUOTE \<notin> set t" "LF \<notin> set t"
    and "rest = [] \<or> hd rest = COMMA"
  shows "rfc4180 FieldStart [] row rows (t @ rest) = rfc4180 InPlain (rev t) row rows rest"
proof (cases t)
  case Nil
  with assms(4) show ?thesis by (cases rest) auto
next
  case (Cons c cs)
  with assms plain_run [of cs "[c]" row rows rest] show ?thesis by auto
qed

lemma quoted_run:
  "rfc4180 InQuoted fld row rows (replace_quotes t @ DQUOTE # rest)
     = rfc4180 AfterQuote (rev t @ fld) row rows rest"
  by (induction t arbitrary: fld) auto

lemma replace_quotes_set:
  "COMMA \<in> set (replace_quotes t) \<longleftrightarrow> COMMA \<in> set t"
  "DQUOTE \<in> set (replace_quotes t) \<longleftrightarrow> DQUOTE \<in> set t"
  "LF \<in> set (replace_quotes t) \<longleftrightarrow> LF \<in> set t"
  by (induction t) auto

lemma replace_quotes_id: "DQUOTE \<notin> set t \<Longrightarrow> replace_quotes t = t"
  by (induction t) auto

lemma cell_then_comma:
  "rfc4180 FieldStart [] row rows (csv_cell v @ COMMA # rest)
     = rfc4180 FieldStart [] (cell_text v # row) rows rest"
proof (cases "v = JNull \<or> v = JUndefined")
  case True
  then show ?thesis by (auto simp: csv_cell_def cell_text_def)
next
  case False
  show ?thesis
  proof (cases "COMMA \<in> set (ToString v) \<or> DQUOTE \<in> set (ToString v) \<or> LF \<in> set (ToString v)")
    case True
    with False show ?thesis
      using quoted_run [of "[]" row rows "ToString v" "COMMA # rest"]
      by (auto simp: csv_cell_def cell_text_def Let_def replace_quotes_set)
  next
    case plain: False
    with False show ?thesis
      using plain_start [of "ToString v" "COMMA # rest" row rows]
      by (auto simp: csv_cell_def cell_text_def Let_def replace_quotes_set replace_quotes_id)
  qed
qed

lemma cell_at_end:
  "rfc4180 FieldStart [] row rows (csv_cell v) = Some (rev (rev (cell_text v # row) # rows))"
proof (cases "v = JNull \<or> v = JUndefined")
  case True
  then show ?thesis by (auto simp: csv_cell_def cell_text_def)
next
  case False
  show ?thesis
  proof (cases "COMMA \<in> set (ToString v) \<or> DQUOTE \<in> set (ToString v) \<or> LF \<in> set (ToString v)")
    case True
    with False show ?thesis
      using quoted_run [of "[]" row rows "ToString v" "[]"]
      by (auto simp: csv_cell_def cell_text_def Let_def replace_quotes_set)
  next
    case plain: False
    with False show ?thesis
      using plain_start [of "ToString v" "[]" row rows]
      by (auto simp: csv_cell_def cell_text_def Let_def replace_quotes_set replace_quotes_id)
  qed
qed

lemma cells_roundtrip:
  "vs \<noteq> [] \<Longrightarrow>
   rfc4180 FieldStart [] row rows (join (map csv_cell vs) [COMMA])
     = Some (rev (rev (rev (map cell_text vs) @ row) # rows))"
proof (induction vs arbitrary: row)
  case Nil
  then show ?case by simp
next
  case (Cons v vs)
  show ?case
  proof (cases vs)
    case Nil
    then show ?thesis by (simp add: cell_at_end)
  next
    case (Cons w ws)
    with Cons.IH [of "cell_text v # row"] show ?thesis
      by (simp add: cell_then_comma)
  qed
qed

lemma row_roundtrip:
  "headers \<noteq> [] \<Longrightarrow>
   rfc4180_parse (csv_row headers a) = Some [map (\<lambda>header. cell_text (js_get a header)) headers]"
  using cells_roundtrip [of "map (js_get a) headers" "[]" "[]"]
  by (simp add: rfc4180_parse_def csv_row_def comp_def rev_map)


subsection \<open>The reader on the whole output\<close>

lemma plain_start_lf:
  assumes "COMMA \<notin> set t" "DQUOTE \<notin> set t" "LF \<notin> set t"
  shows "rfc4180 FieldStart [] row rows (t @ LF # rest) = rfc4180 InPlain (rev t) row rows (LF # rest)"
proof (cases t)
  case Nil
  then show ?thesis by simp
next
  case (Cons c cs)
  with assms plain_run [of cs "[c]" row rows "LF # rest"] show ?thesis by auto
qed

lemma cell_then_lf:
  "rfc4180 FieldStart [] row rows (csv_cell v @ LF # rest)
     = rfc4180 FieldStart [] [] (rev (cell_text v # row) # rows) rest"
proof (cases "v = JNull \<or> v = JUndefined")
  case True
  then show ?thesis by (auto simp: csv_cell_def cell_text_def)
next
  case False
  show ?thesis
  proof (cases "COMMA \<in> set (ToString v) \<or> DQUOTE \<in> set (ToString v) \<or> LF \<in> set (ToString v)")
    case True
    with False show ?thesis
      using quoted_run [of "[]" row rows "ToString v" "LF # rest"]
      by (auto simp: csv_cell_def cell_text_def Let_def replace_quotes_set)
  next
    case plain: False
    with False show ?thesis
      using plain_start_lf [of "ToString v" row rows rest]
      by (auto simp: csv_cell_def cell_text_def Let_def replace_quotes_set replace_quotes_id)
  qed
qed

lemma cells_then_lf:
  "vs \<noteq> [] \<Longrightarrow>
   rfc4180 FieldStart [] row rows (join (map csv_cell vs) [COMMA] @ LF # rest)
     = rfc4180 FieldStart [] [] (rev (rev (map cell_text vs) @ row) # rows) rest"
proof (induction vs arbitrary: row)
  case Nil
  then show ?case by simp
next
  case (Cons v vs)
  show ?case
  proof (cases vs)
    case Nil
    then show ?thesis by (simp add: cell_then_lf)
  next
    case (Cons w ws)
    with Cons.IH [of "cell_text v # row"] show ?thesis
      by (simp add: cell_then_comma)
  qed
qed

lemma lines_roundtrip:
  "vss \<noteq> [] \<Longrightarrow> list_all (\<lambda>vs. vs \<noteq> []) vss \<Longrightarrow>
   rfc4180 FieldStart [] [] rows (join (map (\<lambda>vs. join (map csv_cell vs) [COMMA]) vss) [LF])
     = Some (rev rows @ map (map cell_text) vss)"
proof (induction vss arbitrary: rows)
  case Nil
  then show ?case by simp
next
  case (Cons vs vss)
  from Cons.prems have ne: "vs \<noteq> []" by simp
  show ?case
  proof (cases vss)
    case Nil
    with cells_roundtrip [OF ne, of "[]" rows] show ?thesis by simp
  next
    case (Cons ws wss)
    with Cons.prems have "vss \<noteq> []" "list_all (\<lambda>vs. vs \<noteq> []) vss" by simp_all
    from Cons.IH [OF this, of "map cell_text vs # rows"] Cons cells_then_lf [OF ne, of "[]" rows]
    show ?thesis by simp
  qed
qed

lemma plain_name_cell:
  "plain_name n \<Longrightarrow> csv_cell (JStr n) = n" "cell_text (JStr n) = n"
  by (simp_all add: plain_name_def csv_cell_def cell_text_def Let_def replace_quotes_set replace_quotes_id)

lemma jsonToCsv_lines:
  "jsonToCsv (first # rest)
     = join (join (Object_keys first) [COMMA] # map (csv_row (Object_keys first)) (first # rest)) [LF]"
  by (simp add: jsonToCsv_def Let_def)

lemma output_roundtrip:
  assumes "Object_keys first \<noteq> []" and "list_all plain_name (Object_keys first)"
  shows "rfc4180_parse (jsonToCsv (first # rest))
           = Some (Object_keys first
                   # map (\<lambda>a. map (\<lambda>header. cell_text (js_get a header)) (Object_keys first))
                       (first # rest))"
proof -
  let ?hs = "Object_keys first"
  let ?vss = "map JStr ?hs # map (\<lambda>a. map (js_get a) ?hs) (first # rest)"
  from assms(2) have hdr: "map csv_cell (map JStr ?hs) = ?hs" "map cell_text (map JStr ?hs) = ?hs"
    by (simp_all add: list_all_iff plain_name_cell map_idI)
  have lines: "map (\<lambda>vs. join (map csv_cell vs) [COMMA]) ?vss
      = join ?hs [COMMA] # map (csv_row ?hs) (first # rest)"
    using hdr(1) by (simp add: csv_row_def comp_def)
  have texts: "map (map cell_text) ?vss
      = ?hs # map (\<lambda>a. map (\<lambda>header. cell_text (js_get a header)) ?hs) (first # rest)"
    using hdr(2) by (simp add: comp_def)
  from assms(1) have "list_all (\<lambda>vs. vs \<noteq> []) ?vss"
    by (simp add: list_all_iff)
  from lines_roundtrip [OF _ this, of "[]"] show ?thesis
    unfolding rfc4180_parse_def jsonToCsv_lines lines [symmetric] texts [symmetric] by simp
qed

text \<open>
  Claim C1. Let a value of a record of a non-empty sequence, under a field of the first
  record, have a text with a comma, a double quote or a line feed in it. The output of
  \<open>jsonToCsv\<close> is the header line and one row per record, joined by line feeds; the
  row of that record is its cells joined by commas; the cell of that value is its text
  with every double quote doubled, between two double quotes. The reader, run on that
  row, gives one record with one field per header, the field of that value being the
  original text. When, moreover, no field name needs quoting, the reader run on the whole
  output gives the header and one record per row, and again the original text at the
  place of the value.

  The reader takes a carriage return outside quotes as data: the script quotes a cell
  for a comma, a double quote or a line feed only, so a cell with a bare carriage return
  is written without quotes, and the fields of a row are recovered by a reader that
  ends records at line feeds, as the script writes them.
\<close>

theorem quoted_cell_roundtrip:
  assumes "j < length (first # rest)"
    and "i < length (Object_keys first)"
    and "COMMA \<in> set (ToString (js_get ((first # rest) ! j) (Object_keys first ! i)))
         \<or> DQUOTE \<in> set (ToString (js_get ((first # rest) ! j) (Object_keys first ! i)))
         \<or> LF \<in> set (ToString (js_get ((first # rest) ! j) (Object_keys first ! i)))"
  shows "jsonToCsv (first # rest)
           = join (join (Object_keys first) [COMMA]
                   # map (csv_row (Object_keys first)) (first # rest)) [LF]
       \<and> map (csv_row (Object_keys first)) (first # rest) ! j
           = join (map (\<lambda>header. csv_cell (js_get ((first # rest) ! j) header))
                     (Object_keys first)) [COMMA]
       \<and> map (\<lambda>header. csv_cell (js_get ((first # rest) ! j) header)) (Object_keys first) ! i
           = DQUOTE # replace_quotes (ToString (js_get ((first # rest) ! j) (Object_keys first ! i)))
               @ [DQUOTE]
       \<and> (\<exists>cells. rfc4180_parse (map (csv_row (Object_keys first)) (first # rest) ! j) = Some [cells]
             \<and> length cells = length (Object_keys first)
             \<and> cells ! i = ToString (js_get ((first # rest) ! j) (Object_keys first ! i)))
       \<and> (list_all plain_name (Object_keys first) \<longrightarrow>
            (\<exists>records. rfc4180_parse (jsonToCsv (first # rest)) = Some records
               \<and> length records = Suc (length (first # rest))
               \<and> length (records ! Suc j) = length (Object_keys first)
               \<and> records ! Suc j ! i
                   = ToString (js_get ((first # rest) ! j) (Object_keys first ! i))))"
proof -
  let ?hs = "Object_keys first"
  let ?a = "(first # rest) ! j"
  let ?v = "js_get ?a (?hs ! i)"
  from assms(3) have nn: "?v \<noteq> JNull" "?v \<noteq> JUndefined"
    by auto
  with assms(3) have cell: "csv_cell ?v = DQUOTE # replace_quotes (ToString ?v) @ [DQUOTE]"
    by (auto simp: csv_cell_def Let_def replace_quotes_set)
  from nn have tx: "cell_text ?v = ToString ?v"
    by (simp add: cell_text_def)
  from assms(2) have ne: "?hs \<noteq> []" by auto
  from assms(1) have row: "map (csv_row ?hs) (first # rest) ! j = csv_row ?hs ?a"
    by (rule nth_map)
  have c1: "jsonToCsv (first # rest)
      = join (join ?hs [COMMA] # map (csv_row ?hs) (first # rest)) [LF]"
    by (rule jsonToCsv_lines)
  have c2: "map (csv_row ?hs) (first # rest) ! j
      = join (map (\<lambda>header. csv_cell (js_get ?a header)) ?hs) [COMMA]"
    by (simp only: row csv_row_def)
  have c3: "map (\<lambda>header. csv_cell (js_get ?a header)) ?hs ! i
      = DQUOTE # replace_quotes (ToString ?v) @ [DQUOTE]"
    using assms(2) cell by simp
  have c4: "\<exists>cells. rfc4180_parse (map (csv_row ?hs) (first # rest) ! j) = Some [cells]
      \<and> length cells = length ?hs \<and> cells ! i = ToString ?v"
  proof -
    have "\<exists>cells. rfc4180_parse (csv_row ?hs ?a) = Some [cells]
        \<and> length cells = length ?hs \<and> cells ! i = ToString ?v"
      using row_roundtrip [OF ne, of ?a] assms(2) tx by simp
    then show ?thesis by (simp only: row)
  qed
  have c5: "\<exists>records. rfc4180_parse (jsonToCsv (first # rest)) = Some records
      \<and> length records = Suc (length (first # rest))
      \<and> length (records ! Suc j) = length ?hs
      \<and> records ! Suc j ! i = ToString ?v"
    if plain: "list_all plain_name ?hs"
  proof -
    let ?records = "?hs # map (\<lambda>a. map (\<lambda>header. cell_text (js_get a header)) ?hs) (first # rest)"
    from assms(1) have "?records ! Suc j = map (\<lambda>header. cell_text (js_get ?a header)) ?hs"
      by (simp only: nth_Cons_Suc nth_map)
    with assms(2) tx have "length (?records ! Suc j) = length ?hs"
      "?records ! Suc j ! i = ToString ?v"
      by simp_all
    moreover have "length ?records = Suc (length (first # rest))" by simp
    ultimately show ?thesis
      using output_roundtrip [OF ne plain, of rest] by blast
  qed
  from c1 c2 c3 c4 c5 show ?thesis by blast
qed

theorem quoted_cell_roundtrip_witness:
  "(1::nat) < length quoted_example
   \<and> (1::nat) < length (Object_keys (hd quoted_example))
   \<and> COMMA \<in> set (ToString (js_get (quoted_example ! 1) (Object_keys (hd quoted_example) ! 1)))
   \<and> list_all plain_name (Object_keys (hd quoted_example))
   \<and> jsonToCsv quoted_example
       = ''id,title'' @ [LF] @ ''7,plain'' @ [LF]
         @ ''8,'' @ [DQUOTE] @ ''a'' @ [COMMA, DQUOTE, DQUOTE] @ ''b'' @ [DQUOTE]
   \<and> rfc4180_parse (''8,'' @ [DQUOTE] @ ''a'' @ [COMMA, DQUOTE, DQUOTE] @ ''b'' @ [DQUOTE])
       = Some [[''8'', ''a'' @ [COMMA, DQUOTE] @ ''b'']]
   \<and> rfc4180_parse (jsonToCsv quoted_example)
       = Some [[''id'', ''title''], [''7'', ''plain''], [''8'', ''a'' @ [COMMA, DQUOTE] @ ''b'']]"
  using quoted_cell_roundtrip [where j = 1 and i = 1
      and first = "[(''id'', JNum ''7''), (''title'', JStr ''plain'')]"
      and rest = "[[(''title'', JStr (''a'' @ [COMMA, DQUOTE] @ ''b'')), (''id'', JNum ''8'')]]"]
  by (simp add: quoted_example_def Object_keys_def plain_name_def jsonToCsv_def csv_row_def
      csv_cell_def js_get_def rfc4180_parse_def)

subsection \<open>The shape of the output\<close>

text \<open>
  Claim C8. On the empty sequence \<open>jsonToCsv\<close> returns the empty string: it is a
  value, not an exception.
\<close>

theorem jsonToCsv_empty: "jsonToCsv [] = []"
  by (simp add: jsonToCsv_def)

text \<open>
  Claim C10. The header line is the first record's field names joined by commas, as
  they are, followed by the data rows; a field name with a comma in it is therefore
  read back as two columns, where the data row has one.
\<close>

theorem header_not_escaped:
  "jsonToCsv (a # as)
     = join (map fst a) [COMMA] @ [LF] @ join (map (csv_row (map fst a)) (a # as)) [LF]
   \<and> jsonToCsv [[(''a,b'', JStr ''x'')]] = ''a,b'' @ [LF] @ ''x''
   \<and> rfc4180_parse (jsonToCsv [[(''a,b'', JStr ''x'')]]) = Some [[''a'', ''b''], [''x'']]"
proof -
  have "jsonToCsv (a # as)
      = join (map fst a) [COMMA] @ [LF] @ join (map (csv_row (map fst a)) (a # as)) [LF]"
    by (simp add: jsonToCsv_def Object_keys_def Let_def)
  moreover have "jsonToCsv [[(''a,b'', JStr ''x'')]] = ''a,b'' @ [LF] @ ''x''"
    by (simp add: jsonToCsv_def Object_keys_def csv_row_def csv_cell_def js_get_def)
  moreover have "rfc4180_parse (''a,b'' @ [LF] @ ''x'') = Some [[''a'', ''b''], [''x'']]"
    by (simp add: rfc4180_parse_def)
  ultimately show ?thesis by simp
qed

subsection \<open>Columns\<close>

lemma map_of_filter_keys:
  "map_of (filter (\<lambda>(k, v). P k) a) k = (if P k then map_of a k else None)"
  by (induction a) auto

lemma js_get_filter_keys:
  "h \<in> set headers \<Longrightarrow> js_get (filter (\<lambda>(k, v). k \<in> set headers) a) h = js_get a h"
  by (simp add: js_get_def map_of_filter_keys)

text \<open>
  The header line and every data row follow the field names of the first record, in
  their order; a row is the same whether or not the record's other fields are removed
  first, so a field the first record does not have never reaches the output.
\<close>

theorem columns_follow_first_record:
  "jsonToCsv (first # rest)
     = join (join (Object_keys first) [COMMA] # map (csv_row (Object_keys first)) (first # rest)) [LF]
   \<and> csv_row headers (filter (\<lambda>(k, v). k \<in> set headers) a) = csv_row headers a"
proof -
  have "map (\<lambda>header. csv_cell (js_get (filter (\<lambda>(k, v). k \<in> set headers) a) header)) headers
      = map (\<lambda>header. csv_cell (js_get a header)) headers"
    by (rule map_cong) (simp_all add: js_get_filter_keys)
  then have "csv_row headers (filter (\<lambda>(k, v). k \<in> set headers) a) = csv_row headers a"
    by (simp only: csv_row_def)
  moreover have "jsonToCsv (first # rest)
      = join (join (Object_keys first) [COMMA] # map (csv_row (Object_keys first)) (first # rest)) [LF]"
    by (simp add: jsonToCsv_def Let_def)
  ultimately show ?thesis by (rule conjI [rotated])
qed

text \<open>
  A field of the header that a record does not have, or has as \<^verbatim>\<open>null\<close>, is an empty
  cell of its row and is read back as the empty string, provided the field's name is
  not the name of a property of \<^verbatim>\<open>Object.prototype\<close>.
\<close>

theorem missing_field_empty_cell:
  assumes "i < length headers"
    and "headers ! i \<notin> set object_prototype_names"
    and "map_of a (headers ! i) = None \<or> map_of a (headers ! i) = Some JNull"
  shows "csv_cell (js_get a (headers ! i)) = []
       \<and> (\<exists>cells. rfc4180_parse (csv_row headers a) = Some [cells]
             \<and> length cells = length headers \<and> cells ! i = [])"
proof -
  from assms(2,3) have v: "js_get a (headers ! i) = JUndefined \<or> js_get a (headers ! i) = JNull"
    by (auto simp: js_get_def object_prototype_get_def object_prototype_names_def)
  then have cell: "csv_cell (js_get a (headers ! i)) = []" "cell_text (js_get a (headers ! i)) = []"
    by (auto simp: csv_cell_def cell_text_def)
  from assms(1) have ne: "headers \<noteq> []" by auto
  from assms(1) cell have "map (\<lambda>header. cell_text (js_get a header)) headers ! i = []"
    by simp
  with row_roundtrip [OF ne, of a] cell show ?thesis by simp
qed

theorem missing_field_empty_cell_witness:
  "(1::nat) < length [''id'', ''title'']
   \<and> [''id'', ''title''] ! 1 \<notin> set object_prototype_names
   \<and> map_of [(''id'', JStr ''2'')] ([''id'', ''title''] ! 1) = None
   \<and> csv_row [''id'', ''title''] [(''id'', JStr ''2'')] = ''2,''
   \<and> rfc4180_parse (csv_row [''id'', ''title''] [(''id'', JStr ''2'')]) = Some [[''2'', []]]"
  using missing_field_empty_cell [of 1 "[''id'', ''title'']" "[(''id'', JStr ''2'')]"]
  by (simp add: object_prototype_names_def object_prototype_methods_def csv_row_def
      csv_cell_def js_get_def object_prototype_get_def rfc4180_parse_def)

text \<open>
  Claim C4. The claim's empty cell for a missing field fails where the field is named
  like a property of \<^verbatim>\<open>Object.prototype\<close>: the second record below has no field
  \<^verbatim>\<open>toString\<close>, \<^verbatim>\<open>article[header]\<close> finds the inherited function, and the cell is the
  function's text.
\<close>

theorem inherited_field_rendered:
  "jsonToCsv [[(''id'', JStr ''1''), (''toString'', JStr ''x'')], [(''id'', JStr ''2'')]]
     = ''id,toString'' @ [LF] @ ''1,x'' @ [LF] @ ''2,function toString() { [native code] }''"
  by (simp add: jsonToCsv_def Object_keys_def csv_row_def csv_cell_def js_get_def
      object_prototype_get_def object_prototype_methods_def)

section \<open>The summary\<close>

subsection \<open>The loop, field by field\<close>

lemma fold_tally_articleTypes:
  "articleTypes (fold (tally_article h) as s)
     = fold count_under (map (\<lambda>a. ToString (js_get a ''articleType'')) as) (articleTypes s)"
  by (induction as arbitrary: s) (simp_all add: tally_article_def)

lemma fold_tally_languages:
  "languages (fold (tally_article h) as s)
     = fold count_under (map (\<lambda>a. ToString (js_get a ''language'')) as) (languages s)"
  by (induction as arbitrary: s) (simp_all add: tally_article_def)

lemma fold_tally_publishStatuses:
  "publishStatuses (fold (tally_article h) as s)
     = fold count_under (map (\<lambda>a. ToString (js_get a ''publishStatus'')) as) (publishStatuses s)"
  by (induction as arbitrary: s) (simp_all add: tally_article_def)

lemma fold_tally_visibilityStats:
  "visibilityStats (fold (tally_article h) as s) = fold count_visibility as (visibilityStats s)"
  by (induction as arbitrary: s) (simp_all add: tally_article_def)

lemma fold_tally_dateRange:
  "dateRange (fold (tally_article h) as s) = fold (track_date h) as (dateRange s)"
  by (induction as arbitrary: s) (simp_all add: tally_article_def)

lemma fold_tally_totalArticles:
  "totalArticles (fold (tally_article h) as s) = totalArticles s"
  by (induction as arbitrary: s) (simp_all add: tally_article_def)

lemma generateSummary_articleTypes:
  "articleTypes (generateSummary h now articles)
     = fold count_under (category_keys ''articleType'' articles) Map.empty"
  by (simp add: generateSummary_def fold_tally_articleTypes initial_summary_def category_keys_def)

lemma generateSummary_languages:
  "languages (generateSummary h now articles)
     = fold count_under (category_keys ''language'' articles) Map.empty"
  by (simp add: generateSummary_def fold_tally_languages initial_summary_def category_keys_def)

lemma generateSummary_publishStatuses:
  "publishStatuses (generateSummary h now articles)
     = fold count_under (category_keys ''publishStatus'' articles) Map.empty"
  by (simp add: generateSummary_def fold_tally_publishStatuses initial_summary_def category_keys_def)

lemma generateSummary_visibilityStats:
  "visibilityStats (generateSummary h now articles)
     = fold count_visibility articles \<lparr>visibleInPkb = 0, visibleInCsp = 0, visibleInPrm = 0\<rparr>"
  by (simp add: generateSummary_def fold_tally_visibilityStats initial_summary_def)

lemma generateSummary_totalArticles:
  "totalArticles (generateSummary h now articles) = length articles"
  by (simp add: generateSummary_def fold_tally_totalArticles initial_summary_def)

lemma generateSummary_dateRange:
  "dateRange (generateSummary h now articles)
     = fold (track_date h) articles \<lparr>earliest = JNull, latest = JNull\<rparr>"
  by (simp add: generateSummary_def fold_tally_dateRange initial_summary_def)

subsection \<open>Tallies\<close>

lemma incremented_other: "k \<noteq> k' \<Longrightarrow> incremented (m(k' \<mapsto> v)) k = incremented m k"
  by (simp add: incremented_def)

lemma count_under_commute:
  "count_under k1 (count_under k2 m) = count_under k2 (count_under k1 m)"
proof (cases "k1 = k2")
  case True
  then show ?thesis by simp
next
  case False
  then have "m(k2 \<mapsto> incremented m k2, k1 \<mapsto> incremented m k1)
      = m(k1 \<mapsto> incremented m k1, k2 \<mapsto> incremented m k2)"
    by (simp add: fun_upd_twist)
  with False show ?thesis
    by (simp add: count_under_def incremented_other)
qed

lemma fold_count_under_mset:
  assumes "mset ks = mset ks'"
  shows "fold count_under ks m = fold count_under ks' m"
proof -
  have "fold count_under ks = fold count_under ks'"
    by (rule fold_multiset_equiv) (auto simp: assms count_under_commute fun_eq_iff)
  then show ?thesis by simp
qed

lemma fold_count_under_number:
  assumes "k \<notin> set object_prototype_names"
    and "m k = (if c = 0 then None else Some (CNum c))"
  shows "fold count_under ks m k
           = (if c + occurrences k ks = 0 then None else Some (CNum (c + occurrences k ks)))"
  using assms(2)
proof (induction ks arbitrary: m c)
  case Nil
  then show ?case by (simp add: occurrences_def)
next
  case (Cons x ks)
  show ?case
  proof (cases "x = k")
    case True
    from assms(1) have "object_prototype_get k = JUndefined" "k \<noteq> ''__proto__''"
      by (auto simp: object_prototype_names_def object_prototype_get_def)
    with Cons.prems True have "count_under x m k = (if Suc c = 0 then None else Some (CNum (Suc c)))"
      by (simp add: count_under_def incremented_def)
    from Cons.IH [of "count_under x m" "Suc c", OF this] True show ?thesis
      by (simp add: occurrences_def)
  next
    case False
    with Cons.prems have "count_under x m k = (if c = 0 then None else Some (CNum c))"
      by (simp add: count_under_def)
    from Cons.IH [of "count_under x m" c, OF this] False show ?thesis
      by (simp add: occurrences_def)
  qed
qed

lemma plain_key_tally:
  assumes "k \<notin> set object_prototype_names"
  shows "fold count_under ks Map.empty k
           = (if occurrences k ks = 0 then None else Some (CNum (occurrences k ks)))"
  using fold_count_under_number [OF assms, of Map.empty 0 ks] by simp

lemma undefined_null_plain:
  "''undefined'' \<notin> set object_prototype_names" "''null'' \<notin> set object_prototype_names"
  by (simp_all add: object_prototype_names_def object_prototype_methods_def)

lemma bucket_count_pos:
  "a \<in> set articles \<Longrightarrow> ToString (js_get a field) = k \<Longrightarrow> 0 < bucket_count field k articles"
  by (auto simp: bucket_count_def category_keys_def occurrences_def filter_empty_conv)

lemma absent_field_key:
  assumes "field \<notin> set object_prototype_names"
  shows "map_of a field = None \<Longrightarrow> ToString (js_get a field) = ''undefined''"
    and "map_of a field = Some JNull \<Longrightarrow> ToString (js_get a field) = ''null''"
  using assms
  by (auto simp: js_get_def object_prototype_get_def object_prototype_names_def)

lemma category_fields_plain:
  "''articleType'' \<notin> set object_prototype_names"
  "''language'' \<notin> set object_prototype_names"
  "''publishStatus'' \<notin> set object_prototype_names"
  by (simp_all add: object_prototype_names_def object_prototype_methods_def)

text \<open>
  Claim C6. A record without the categorical field is tallied under the key
  \<^verbatim>\<open>undefined\<close>, a record whose field is \<^verbatim>\<open>null\<close> under the key \<^verbatim>\<open>null\<close>: the tally
  holds, under that key, the number of records whose value has that text, and the record
  is one of them. This holds for each of \<^verbatim>\<open>articleType\<close>, \<^verbatim>\<open>language\<close> and
  \<^verbatim>\<open>publishStatus\<close>.
\<close>

theorem missing_category_counted:
  assumes "a \<in> set articles"
  shows "(map_of a ''articleType'' = None \<longrightarrow>
            0 < bucket_count ''articleType'' ''undefined'' articles
            \<and> articleTypes (generateSummary h now articles) ''undefined''
                = Some (CNum (bucket_count ''articleType'' ''undefined'' articles)))
       \<and> (map_of a ''articleType'' = Some JNull \<longrightarrow>
            0 < bucket_count ''articleType'' ''null'' articles
            \<and> articleTypes (generateSummary h now articles) ''null''
                = Some (CNum (bucket_count ''articleType'' ''null'' articles)))
       \<and> (map_of a ''language'' = None \<longrightarrow>
            0 < bucket_count ''language'' ''undefined'' articles
            \<and> languages (generateSummary h now articles) ''undefined''
                = Some (CNum (bucket_count ''language'' ''undefined'' articles)))
       \<and> (map_of a ''language'' = Some JNull \<longrightarrow>
            0 < bucket_count ''language'' ''null'' articles
            \<and> languages (generateSummary h now articles) ''null''
                = Some (CNum (bucket_count ''language'' ''null'' articles)))
       \<and> (map_of a ''publishStatus'' = None \<longrightarrow>
            0 < bucket_count ''publishStatus'' ''undefined'' articles
            \<and> publishStatuses (generateSummary h now articles) ''undefined''
                = Some (CNum (bucket_count ''publishStatus'' ''undefined'' articles)))
       \<and> (map_of a ''publishStatus'' = Some JNull \<longrightarrow>
            0 < bucket_count ''publishStatus'' ''null'' articles
            \<and> publishStatuses (generateSummary h now articles) ''null''
                = Some (CNum (bucket_count ''publishStatus'' ''null'' articles)))"
proof -
  have counted: "0 < bucket_count field k articles
      \<and> fold count_under (category_keys field articles) Map.empty k
          = Some (CNum (bucket_count field k articles))"
    if "ToString (js_get a field) = k" and "k \<notin> set object_prototype_names" for field k
  proof -
    from bucket_count_pos [OF assms that(1)] have pos: "0 < bucket_count field k articles" .
    with plain_key_tally [OF that(2), of "category_keys field articles"] show ?thesis
      by (simp add: bucket_count_def)
  qed
  show ?thesis
    using counted [OF absent_field_key(1) [OF category_fields_plain(1)] undefined_null_plain(1)]
      counted [OF absent_field_key(2) [OF category_fields_plain(1)] undefined_null_plain(2)]
      counted [OF absent_field_key(1) [OF category_fields_plain(2)] undefined_null_plain(1)]
      counted [OF absent_field_key(2) [OF category_fields_plain(2)] undefined_null_plain(2)]
      counted [OF absent_field_key(1) [OF category_fields_plain(3)] undefined_null_plain(1)]
      counted [OF absent_field_key(2) [OF category_fields_plain(3)] undefined_null_plain(2)]
    by (simp add: generateSummary_articleTypes generateSummary_languages
        generateSummary_publishStatuses)
qed

theorem missing_category_counted_witness:
  "[(''language'', JNull)] \<in> set [[(''articleType'', JStr ''FAQ''), (''language'', JStr ''en'')], [(''language'', JNull)]]
   \<and> map_of [(''language'', JNull)] ''articleType'' = None
   \<and> map_of [(''language'', JNull)] ''language'' = Some JNull
   \<and> map_of [(''language'', JNull)] ''publishStatus'' = None
   \<and> articleTypes (generateSummary example_host ''t''
         [[(''articleType'', JStr ''FAQ''), (''language'', JStr ''en'')], [(''language'', JNull)]]) ''undefined''
       = Some (CNum 1)
   \<and> languages (generateSummary example_host ''t''
         [[(''articleType'', JStr ''FAQ''), (''language'', JStr ''en'')], [(''language'', JNull)]]) ''null''
       = Some (CNum 1)
   \<and> publishStatuses (generateSummary example_host ''t''
         [[(''articleType'', JStr ''FAQ''), (''language'', JStr ''en'')], [(''language'', JNull)]]) ''undefined''
       = Some (CNum 2)"
  using missing_category_counted [of "[(''language'', JNull)]"
      "[[(''articleType'', JStr ''FAQ''), (''language'', JStr ''en'')], [(''language'', JNull)]]"
      example_host "''t''"]
  by (simp add: bucket_count_def category_keys_def occurrences_def js_get_def
      object_prototype_get_def object_prototype_methods_def)

lemma fold_count_under_untouched:
  "k \<notin> set ks \<Longrightarrow> fold count_under ks m k = m k"
  by (induction ks arbitrary: m) (auto simp: count_under_def)

lemma occurrences_count_list: "occurrences k ks = count_list ks k"
  by (induction ks) (simp_all add: occurrences_def)

lemma plain_keys_tally_sum:
  assumes "set ks \<inter> set object_prototype_names = {}"
  shows "tally_sum (fold count_under ks Map.empty) = length ks"
proof -
  let ?m = "fold count_under ks Map.empty"
  have val: "?m k = (if occurrences k ks = 0 then None else Some (CNum (occurrences k ks)))" for k
  proof (cases "k \<in> set ks")
    case True
    with assms have "k \<notin> set object_prototype_names" by auto
    then show ?thesis by (rule plain_key_tally)
  next
    case False
    then have "occurrences k ks = 0"
      by (auto simp: occurrences_def filter_empty_conv)
    with False show ?thesis by (simp add: fold_count_under_untouched)
  qed
  have dom: "dom ?m = set ks"
  proof -
    have "k \<in> dom ?m \<longleftrightarrow> k \<in> set ks" for k
      by (auto simp: val dom_def occurrences_def filter_empty_conv)
    then show ?thesis by blast
  qed
  have "tally_sum ?m = (\<Sum>k\<in>set ks. count_list ks k)"
    unfolding tally_sum_def dom
    by (rule sum.cong) (simp_all add: val tally_value_def occurrences_count_list)
  also have "\<dots> = length ks"
    by (simp add: sum_count_set)
  finally show ?thesis .
qed

text \<open>
  When no record's categorical value has the text of a property name of
  \<^verbatim>\<open>Object.prototype\<close>, the values of each tally sum to \<open>totalArticles\<close>.
\<close>

theorem tallies_sum_to_total:
  assumes "set (category_keys ''articleType'' articles) \<inter> set object_prototype_names = {}"
    and "set (category_keys ''language'' articles) \<inter> set object_prototype_names = {}"
    and "set (category_keys ''publishStatus'' articles) \<inter> set object_prototype_names = {}"
  shows "tally_sum (articleTypes (generateSummary h now articles)) = totalArticles (generateSummary h now articles)
       \<and> tally_sum (languages (generateSummary h now articles)) = totalArticles (generateSummary h now articles)
       \<and> tally_sum (publishStatuses (generateSummary h now articles)) = totalArticles (generateSummary h now articles)"
  using plain_keys_tally_sum [OF assms(1)] plain_keys_tally_sum [OF assms(2)]
    plain_keys_tally_sum [OF assms(3)]
  by (simp add: generateSummary_totalArticles generateSummary_articleTypes
      generateSummary_languages generateSummary_publishStatuses category_keys_def)

theorem tallies_sum_to_total_witness:
  "set (category_keys ''articleType'' example_articles) \<inter> set object_prototype_names = {}
   \<and> set (category_keys ''language'' example_articles) \<inter> set object_prototype_names = {}
   \<and> set (category_keys ''publishStatus'' example_articles) \<inter> set object_prototype_names = {}
   \<and> tally_sum (articleTypes (generateSummary example_host ''t'' example_articles)) = 2
   \<and> tally_sum (languages (generateSummary example_host ''t'' example_articles)) = 2
   \<and> tally_sum (publishStatuses (generateSummary example_host ''t'' example_articles)) = 2"
proof -
  have keys: "set (category_keys ''articleType'' example_articles) \<inter> set object_prototype_names = {}"
    "set (category_keys ''language'' example_articles) \<inter> set object_prototype_names = {}"
    "set (category_keys ''publishStatus'' example_articles) \<inter> set object_prototype_names = {}"
    by (simp_all add: example_articles_def category_keys_def js_get_def object_prototype_get_def
        object_prototype_names_def object_prototype_methods_def)
  have "totalArticles (generateSummary example_host ''t'' example_articles) = 2"
    by (simp add: generateSummary_totalArticles example_articles_def)
  with keys tallies_sum_to_total [OF keys, of example_host "''t''"] show ?thesis by simp
qed

text \<open>
  Claim C9. The sum of a tally is not \<open>totalArticles\<close> for every input: a record whose
  \<^verbatim>\<open>articleType\<close> is \<^verbatim>\<open>__proto__\<close> adds nothing to the tally (the assignment is taken by
  the inherited setter), and one whose \<^verbatim>\<open>articleType\<close> is \<^verbatim>\<open>constructor\<close> stores a
  string, the text of the inherited function followed by \<^verbatim>\<open>1\<close>.
\<close>

theorem inherited_key_not_counted:
  "totalArticles (generateSummary h now [[(''articleType'', JStr ''__proto__'')]]) = 1
   \<and> articleTypes (generateSummary h now [[(''articleType'', JStr ''__proto__'')]]) = Map.empty
   \<and> tally_sum (articleTypes (generateSummary h now [[(''articleType'', JStr ''__proto__'')]])) = 0
   \<and> totalArticles (generateSummary h now [[(''articleType'', JStr ''constructor'')]]) = 1
   \<and> articleTypes (generateSummary h now [[(''articleType'', JStr ''constructor'')]]) ''constructor''
       = Some (CStr ''function Object() { [native code] }1'')"
  by (simp add: generateSummary_def initial_summary_def tally_article_def count_under_def
      incremented_def js_get_def object_prototype_get_def tally_sum_def)

subsection \<open>Visibility counters\<close>

lemma count_visibility_fields:
  "visibleInPkb (count_visibility a vs)
     = visibleInPkb vs + (if truthy (js_get a ''isVisibleInPkb'') then 1 else 0)"
  "visibleInCsp (count_visibility a vs)
     = visibleInCsp vs + (if truthy (js_get a ''isVisibleInCsp'') then 1 else 0)"
  "visibleInPrm (count_visibility a vs)
     = visibleInPrm vs + (if truthy (js_get a ''isVisibleInPrm'') then 1 else 0)"
  by (simp_all add: count_visibility_def Let_def)

lemma fold_count_visibility:
  "visibleInPkb (fold count_visibility as vs)
     = visibleInPkb vs + length (filter (\<lambda>a. truthy (js_get a ''isVisibleInPkb'')) as)"
  "visibleInCsp (fold count_visibility as vs)
     = visibleInCsp vs + length (filter (\<lambda>a. truthy (js_get a ''isVisibleInCsp'')) as)"
  "visibleInPrm (fold count_visibility as vs)
     = visibleInPrm vs + length (filter (\<lambda>a. truthy (js_get a ''isVisibleInPrm'')) as)"
  by (induction as arbitrary: vs) (simp_all add: count_visibility_fields)

text \<open>Each visibility counter is at most \<open>totalArticles\<close>.\<close>

theorem visibility_at_most_total:
  "visibleInPkb (visibilityStats (generateSummary h now articles)) \<le> totalArticles (generateSummary h now articles)
   \<and> visibleInCsp (visibilityStats (generateSummary h now articles)) \<le> totalArticles (generateSummary h now articles)
   \<and> visibleInPrm (visibilityStats (generateSummary h now articles)) \<le> totalArticles (generateSummary h now articles)"
  by (simp add: generateSummary_visibilityStats generateSummary_totalArticles fold_count_visibility)

subsection \<open>The order of the records\<close>

lemma length_filter_mset:
  "mset xs = mset ys \<Longrightarrow> length (filter P xs) = length (filter P ys)"
proof -
  assume "mset xs = mset ys"
  then have "size (mset (filter P xs)) = size (mset (filter P ys))" by simp
  then show ?thesis by (simp only: size_mset)
qed

lemma category_keys_mset:
  "mset xs = mset ys \<Longrightarrow> mset (category_keys field xs) = mset (category_keys field ys)"
  by (simp add: category_keys_def)

text \<open>
  The count, the three tallies and the three visibility counters are the same for a
  sequence of records and for any permutation of it.
\<close>

theorem counts_order_independent:
  assumes "mset xs = mset ys"
  shows "totalArticles (generateSummary h now xs) = totalArticles (generateSummary h now ys)
       \<and> articleTypes (generateSummary h now xs) = articleTypes (generateSummary h now ys)
       \<and> languages (generateSummary h now xs) = languages (generateSummary h now ys)
       \<and> publishStatuses (generateSummary h now xs) = publishStatuses (generateSummary h now ys)
       \<and> visibilityStats (generateSummary h now xs) = visibilityStats (generateSummary h now ys)"
proof -
  from assms have "size (mset xs) = size (mset ys)" by simp
  then have total: "length xs = length ys" by (simp only: size_mset)
  have vis: "visibilityStats (generateSummary h now xs) = visibilityStats (generateSummary h now ys)"
    by (rule visibility_stats.equality)
      (simp_all add: generateSummary_visibilityStats fold_count_visibility
        length_filter_mset [OF assms])
  show ?thesis
    using total vis
    by (simp add: generateSummary_totalArticles generateSummary_articleTypes
        generateSummary_languages generateSummary_publishStatuses
        fold_count_under_mset [OF category_keys_mset [OF assms]])
qed

theorem counts_order_independent_witness:
  "mset example_articles = mset (rev example_articles)
   \<and> totalArticles (generateSummary example_host ''t'' (rev example_articles)) = 2
   \<and> articleTypes (generateSummary example_host ''t'' (rev example_articles))
       = articleTypes (generateSummary example_host ''t'' example_articles)
   \<and> languages (generateSummary example_host ''t'' (rev example_articles)) ''fr'' = Some (CNum 1)
   \<and> visibleInPkb (visibilityStats (generateSummary example_host ''t'' (rev example_articles))) = 1"
  using counts_order_independent [of example_articles "rev example_articles" example_host "''t''"]
  by (simp add: generateSummary_totalArticles generateSummary_languages
      generateSummary_visibilityStats fold_count_visibility)
    (simp add: example_articles_def category_keys_def js_get_def count_under_def
      incremented_def object_prototype_get_def object_prototype_methods_def)

subsection \<open>The date range\<close>

lemma track_date_falsy:
  "\<not> truthy (js_get a ''createdDate'') \<Longrightarrow> track_date h a dr = dr"
  by (simp add: track_date_def)

lemma track_date_first:
  "truthy (js_get a ''createdDate'') \<Longrightarrow> \<not> truthy (earliest dr) \<Longrightarrow> \<not> truthy (latest dr) \<Longrightarrow>
   track_date h a dr = dr\<lparr>earliest := js_get a ''createdDate'', latest := js_get a ''createdDate''\<rparr>"
  by (simp add: track_date_def Let_def)

lemma track_date_valid:
  assumes "truthy (js_get a ''createdDate'')" and "new_Date h (js_get a ''createdDate'') = Some t"
    and "truthy (earliest dr)" and "new_Date h (earliest dr) = Some t0"
    and "truthy (latest dr)" and "new_Date h (latest dr) = Some t1"
  shows "truthy (earliest (track_date h a dr))"
    and "new_Date h (earliest (track_date h a dr)) = Some (min t t0)"
    and "truthy (latest (track_date h a dr))"
    and "new_Date h (latest (track_date h a dr)) = Some (max t t1)"
  using assms by (auto simp: track_date_def Let_def min_def max_def)

lemma fold_track_date_valid:
  assumes "all_dates_parse h as"
    and "truthy (earliest dr)" and "new_Date h (earliest dr) = Some t0"
    and "truthy (latest dr)" and "new_Date h (latest dr) = Some t1"
  shows "new_Date h (earliest (fold (track_date h) as dr)) = Some (fold min (date_times h as) t0)
       \<and> new_Date h (latest (fold (track_date h) as dr)) = Some (fold max (date_times h as) t1)"
  using assms
proof (induction as arbitrary: dr t0 t1)
  case Nil
  then show ?case by (simp add: date_times_def date_values_def)
next
  case (Cons a as)
  from Cons.prems(1) have rest: "all_dates_parse h as"
    by (simp add: all_dates_parse_def date_values_def split: if_splits)
  show ?case
  proof (cases "truthy (js_get a ''createdDate'')")
    case False
    then have "date_times h (a # as) = date_times h as"
      by (simp add: date_times_def date_values_def)
    with False Cons.IH [OF rest Cons.prems(2-5)] show ?thesis
      by (simp add: track_date_falsy)
  next
    case True
    with Cons.prems(1) obtain t where t: "new_Date h (js_get a ''createdDate'') = Some t"
      by (auto simp: all_dates_parse_def date_values_def)
    with True have times: "date_times h (a # as) = t # date_times h as"
      by (simp add: date_times_def date_values_def)
    note step = track_date_valid [OF True t Cons.prems(2-5)]
    from Cons.IH [OF rest step] times show ?thesis by simp
  qed
qed

lemma fold_track_date_none:
  "date_values as = [] \<Longrightarrow> fold (track_date h) as dr = dr"
proof (induction as)
  case Nil
  then show ?case by simp
next
  case (Cons a as)
  then show ?case
    by (simp add: date_values_def track_date_falsy split: if_splits)
qed

lemma fold_track_date_initial:
  assumes "all_dates_parse h as" and "date_values as \<noteq> []"
    and "earliest dr = JNull" and "latest dr = JNull"
  shows "new_Date h (earliest (fold (track_date h) as dr)) = Some (Min (set (date_times h as)))
       \<and> new_Date h (latest (fold (track_date h) as dr)) = Some (Max (set (date_times h as)))"
  using assms
proof (induction as)
  case Nil
  then show ?case by (simp add: date_values_def)
next
  case (Cons a as)
  show ?case
  proof (cases "truthy (js_get a ''createdDate'')")
    case False
    then have same: "date_values (a # as) = date_values as" "date_times h (a # as) = date_times h as"
      by (simp_all add: date_times_def date_values_def)
    with Cons.prems have "all_dates_parse h as" "date_values as \<noteq> []"
      by (simp_all add: all_dates_parse_def)
    from Cons.IH [OF this Cons.prems(3,4)] False same show ?thesis
      by (simp add: track_date_falsy)
  next
    case True
    with Cons.prems(1) obtain t where t: "new_Date h (js_get a ''createdDate'') = Some t"
      by (auto simp: all_dates_parse_def date_values_def)
    from True Cons.prems(1) have rest: "all_dates_parse h as"
      by (simp add: all_dates_parse_def date_values_def)
    from True t have times: "date_times h (a # as) = t # date_times h as"
      by (simp add: date_times_def date_values_def)
    let ?dr = "dr\<lparr>earliest := js_get a ''createdDate'', latest := js_get a ''createdDate''\<rparr>"
    from True Cons.prems(3,4) have first: "track_date h a dr = ?dr"
      by (simp add: track_date_first)
    have "new_Date h (earliest (fold (track_date h) as ?dr)) = Some (fold min (date_times h as) t)
        \<and> new_Date h (latest (fold (track_date h) as ?dr)) = Some (fold max (date_times h as) t)"
      by (rule fold_track_date_valid [OF rest]) (simp_all add: True t)
    moreover have "fold min (date_times h as) t = Min (set (t # date_times h as))"
      "fold max (date_times h as) t = Max (set (t # date_times h as))"
      by (simp_all only: Min.set_eq_fold Max.set_eq_fold)
    ultimately show ?thesis
      by (simp only: first times fold_Cons comp_apply)
  qed
qed

lemma date_times_mset:
  "mset xs = mset ys \<Longrightarrow> mset (date_times h xs) = mset (date_times h ys)"
  "mset xs = mset ys \<Longrightarrow> mset (date_values xs) = mset (date_values ys)"
  by (simp_all add: date_times_def date_values_def)

lemma parsed_date_range:
  assumes "all_dates_parse h articles"
  shows "(if date_values articles = []
          then dateRange (generateSummary h now articles) = \<lparr>earliest = JNull, latest = JNull\<rparr>
          else new_Date h (earliest (dateRange (generateSummary h now articles)))
                 = Some (Min (set (date_times h articles)))
             \<and> new_Date h (latest (dateRange (generateSummary h now articles)))
                 = Some (Max (set (date_times h articles))))"
proof (cases "date_values articles = []")
  case True
  then show ?thesis
    by (simp add: generateSummary_dateRange fold_track_date_none)
next
  case False
  with fold_track_date_initial [OF assms False, of "\<lparr>earliest = JNull, latest = JNull\<rparr>"]
  show ?thesis by (simp add: generateSummary_dateRange)
qed

text \<open>
  When every truthy date value gives a valid date, the range is the earliest and the
  latest of their instants; when no record has a truthy date value, both ends stay
  \<^verbatim>\<open>null\<close>.
\<close>

theorem date_range_of_parsed_dates:
  assumes "all_dates_parse h articles"
  shows "(if date_values articles = []
          then dateRange (generateSummary h now articles) = \<lparr>earliest = JNull, latest = JNull\<rparr>
          else new_Date h (earliest (dateRange (generateSummary h now articles)))
                 = Some (Min (set (date_times h articles)))
             \<and> new_Date h (latest (dateRange (generateSummary h now articles)))
                 = Some (Max (set (date_times h articles))))"
  using assms by (rule parsed_date_range)

theorem date_range_of_parsed_dates_witness:
  "all_dates_parse example_host example_articles
   \<and> date_values example_articles = [JStr ''2023-01-01'', JStr ''2023-06-01'']
   \<and> new_Date example_host (earliest (dateRange (generateSummary example_host ''t'' example_articles)))
       = Some 1672531200000
   \<and> new_Date example_host (latest (dateRange (generateSummary example_host ''t'' example_articles)))
       = Some 1685577600000"
proof -
  have dv: "date_values example_articles = [JStr ''2023-01-01'', JStr ''2023-06-01'']"
    by (simp add: date_values_def example_articles_def js_get_def)
  have parse: "all_dates_parse example_host example_articles"
    by (simp add: all_dates_parse_def dv example_host_def)
  have times: "date_times example_host example_articles = [1672531200000, 1685577600000]"
    by (simp add: date_times_def dv example_host_def)
  from date_range_of_parsed_dates [OF parse, of "''t''"] dv times parse show ?thesis
    by simp
qed

text \<open>
  Under the same condition the instants of the two ends do not depend on the order of
  the records.
\<close>

theorem date_instants_order_independent:
  assumes "mset xs = mset ys" and "all_dates_parse h xs"
  shows "new_Date h (earliest (dateRange (generateSummary h now xs)))
           = new_Date h (earliest (dateRange (generateSummary h now ys)))
       \<and> new_Date h (latest (dateRange (generateSummary h now xs)))
           = new_Date h (latest (dateRange (generateSummary h now ys)))"
proof -
  from date_times_mset [OF assms(1)]
  have vals: "mset (date_values xs) = mset (date_values ys)"
    and times: "mset (date_times h xs) = mset (date_times h ys)" by simp_all
  from vals have sets: "set (date_values xs) = set (date_values ys)" by (rule mset_eq_setD)
  from times have tsets: "set (date_times h xs) = set (date_times h ys)" by (rule mset_eq_setD)
  from assms(2) sets have parse: "all_dates_parse h ys"
    by (simp add: all_dates_parse_def list_all_iff)
  from sets have empty: "date_values xs = [] \<longleftrightarrow> date_values ys = []"
    by (metis set_empty)
  show ?thesis
    using parsed_date_range [OF assms(2), of now]
      parsed_date_range [OF parse, of now] empty tsets
    by (cases "date_values xs = []") simp_all
qed

theorem date_instants_order_independent_witness:
  "mset example_articles = mset (rev example_articles)
   \<and> all_dates_parse example_host example_articles
   \<and> new_Date example_host (earliest (dateRange (generateSummary example_host ''t'' (rev example_articles))))
       = Some 1672531200000
   \<and> new_Date example_host (latest (dateRange (generateSummary example_host ''t'' (rev example_articles))))
       = Some 1685577600000"
proof -
  have dv: "date_values example_articles = [JStr ''2023-01-01'', JStr ''2023-06-01'']"
    by (simp add: date_values_def example_articles_def js_get_def)
  have parse: "all_dates_parse example_host example_articles"
    by (simp add: all_dates_parse_def dv example_host_def)
  have perm: "mset example_articles = mset (rev example_articles)" by simp
  have "dateRange (generateSummary example_host ''t'' example_articles)
      = \<lparr>earliest = JStr ''2023-01-01'', latest = JStr ''2023-06-01''\<rparr>"
    by (simp add: generateSummary_dateRange example_articles_def track_date_def js_get_def
        example_host_def Let_def)
  with date_instants_order_independent [OF perm parse, of "''t''"] parse show ?thesis
    by (simp add: example_host_def)
qed

text \<open>
  Claim C3. A truthy date value that does not parse is not skipped when it is the first
  truthy one: the test \<^verbatim>\<open>!summary.dateRange.earliest\<close> takes it for both ends, and no
  later date replaces it, every comparison with an invalid date being false. So the
  range below is not the minimum and maximum of the parsed timestamps, and its ends are
  set although the value is no valid date.
\<close>

theorem garbage_date_kept:
  "dateRange (generateSummary example_host now
     [[(''createdDate'', JStr ''not a date'')], [(''createdDate'', JStr ''2023-01-01'')]])
     = \<lparr>earliest = JStr ''not a date'', latest = JStr ''not a date''\<rparr>
   \<and> new_Date example_host (JStr ''not a date'') = None
   \<and> new_Date example_host (JStr ''2023-01-01'') = Some 1672531200000"
  by (simp add: generateSummary_def initial_summary_def tally_article_def track_date_def
      js_get_def example_host_def Let_def)

text \<open>
  Claim C2. The instants of the range depend on the order of the records: with the
  unparseable value first the earliest end is an invalid date, with the parseable one
  first it is that date.
\<close>

theorem date_range_depends_on_order:
  "mset [[(''createdDate'', JStr ''not a date'')], [(''createdDate'', JStr ''2023-01-01'')]]
     = mset [[(''createdDate'', JStr ''2023-01-01'')], [(''createdDate'', JStr ''not a date'')]]
   \<and> new_Date example_host (earliest (dateRange (generateSummary example_host now
         [[(''createdDate'', JStr ''not a date'')], [(''createdDate'', JStr ''2023-01-01'')]]))) = None
   \<and> new_Date example_host (earliest (dateRange (generateSummary example_host now
         [[(''createdDate'', JStr ''2023-01-01'')], [(''createdDate'', JStr ''not a date'')]])))
       = Some 1672531200000"
  by (simp add: generateSummary_def initial_summary_def tally_article_def track_date_def
      js_get_def example_host_def Let_def)

text \<open>The example of the specification.\<close>

theorem spec_example_summary:
  "totalArticles (generateSummary example_host now example_articles) = 2
   \<and> articleTypes (generateSummary example_host now example_articles) = [''FAQ'' \<mapsto> CNum 2]
   \<and> languages (generateSummary example_host now example_articles) = [''en'' \<mapsto> CNum 1, ''fr'' \<mapsto> CNum 1]
   \<and> visibleInPkb (visibilityStats (generateSummary example_host now example_articles)) = 1
   \<and> dateRange (generateSummary example_host now example_articles)
       = \<lparr>earliest = JStr ''2023-01-01'', latest = JStr ''2023-06-01''\<rparr>"
  by (simp add: generateSummary_def initial_summary_def tally_article_def count_under_def
      incremented_def js_get_def object_prototype_get_def object_prototype_methods_def
      count_visibility_def track_date_def example_host_def example_articles_def Let_def
      eval_nat_numeral)

section \<open>The run\<close>

text \<open>A run on the two example records ends with status 0 and writes both outputs.\<close>

lemma successful_run_example:
  "exit_status (exportKnowledgeData example_runtime
      (empty_files\<lparr>articles_json := Some (Json (DocArray example_articles))\<rparr>)) = 0
   \<and> articles_csv (final (exportKnowledgeData example_runtime
      (empty_files\<lparr>articles_json := Some (Json (DocArray example_articles))\<rparr>)))
       = Some (jsonToCsv example_articles)
   \<and> summary_json (final (exportKnowledgeData example_runtime
      (empty_files\<lparr>articles_json := Some (Json (DocArray example_articles))\<rparr>)))
       = Some (generateSummary example_host ''2026-01-01T00:00:00.000Z'' example_articles)
   \<and> length (export_log (final (exportKnowledgeData example_runtime
      (empty_files\<lparr>articles_json := Some (Json (DocArray example_articles))\<rparr>)))) = 4"
  by (simp add: exportKnowledgeData_def export_body_def example_runtime_def empty_files_def
      logExport_def Let_def)

lemma non_array_body_fails:
  assumes "\<not> holds_array t"
  shows "\<exists>e. snd (export_body rt t fs) = Some e"
proof (cases t)
  case Malformed
  then show ?thesis by (simp add: export_body_def)
next
  case (Json d)
  with assms show ?thesis
    by (cases d) (simp_all add: export_body_def Let_def split: sum.splits)
qed

text \<open>
  Claim C5. When the input file is there and does not hold a JSON array (it is not valid
  JSON, or the document is not an array), the run ends with exit status 1.
\<close>

theorem malformed_input_aborts:
  assumes "articles_json fs = Some t" and "\<not> holds_array t"
  shows "exit_status (exportKnowledgeData rt fs) = 1"
proof -
  from non_array_body_fails [OF assms(2)] obtain e where "snd (export_body rt t fs) = Some e"
    by blast
  then obtain fs' where "export_body rt t fs = (fs', Some e)"
    by (cases "export_body rt t fs") auto
  with assms(1) show ?thesis by (simp add: exportKnowledgeData_def)
qed

theorem malformed_input_aborts_witness:
  "articles_json (empty_files\<lparr>articles_json := Some Malformed\<rparr>) = Some Malformed
   \<and> \<not> holds_array Malformed
   \<and> exit_status (exportKnowledgeData example_runtime (empty_files\<lparr>articles_json := Some Malformed\<rparr>)) = 1
   \<and> articles_json (empty_files\<lparr>articles_json := Some (Json (DocObject [(''length'', JNum ''0'')]))\<rparr>)
       = Some (Json (DocObject [(''length'', JNum ''0'')]))
   \<and> \<not> holds_array (Json (DocObject [(''length'', JNum ''0'')]))
   \<and> exit_status (exportKnowledgeData example_runtime
         (empty_files\<lparr>articles_json := Some (Json (DocObject [(''length'', JNum ''0'')]))\<rparr>)) = 1"
  using malformed_input_aborts [of "empty_files\<lparr>articles_json := Some Malformed\<rparr>" Malformed example_runtime]
    malformed_input_aborts [of "empty_files\<lparr>articles_json := Some (Json (DocObject [(''length'', JNum ''0'')]))\<rparr>"
      "Json (DocObject [(''length'', JNum ''0'')])" example_runtime]
  by simp

text \<open>
  Claim C7. When the input file is not there, the run ends with exit status 1 and leaves
  every file as it was: neither the delimited text nor the summary is written, and no
  line is logged.
\<close>

theorem missing_input_aborts:
  assumes "articles_json fs = None"
  shows "exportKnowledgeData rt fs = \<lparr>exit_status = 1, final = fs\<rparr>"
  using assms by (simp add: exportKnowledgeData_def)

theorem missing_input_aborts_witness:
  "articles_json empty_files = None
   \<and> exit_status (exportKnowledgeData example_runtime empty_files) = 1
   \<and> articles_csv (final (exportKnowledgeData example_runtime empty_files)) = None
   \<and> summary_json (final (exportKnowledgeData example_runtime empty_files)) = None
   \<and> export_log (final (exportKnowledgeData example_runtime empty_files)) = []"
  using missing_input_aborts [of empty_files example_runtime]
  by (simp add: empty_files_def)

end
